theory Spec2Isabelle
  imports Complex_Main "HOL-Library.Sublist"
begin

section \<open>Python values used by the scripts\<close>

text \<open>
  The three scripts are straight-line Python. What they do is call an external client
  library (paho-mqtt, rosbag) and \<^verbatim>\<open>print\<close>; each script is therefore modelled by the
  sequence of those calls, in program order.

  A value handed to the library is kept with its Python type where the script can produce
  more than one: the port given to \<^verbatim>\<open>connect\<close> is the int literal \<^verbatim>\<open>1883\<close> or an element
  of \<^verbatim>\<open>sys.argv\<close>, which is a string.
\<close>

datatype pyval = PyInt int | PyStr string

text \<open>\<^verbatim>\<open>str(n)\<close> for a Python int: decimal digits, most significant first, \<^verbatim>\<open>-\<close> in front
  of a negative number.\<close>

definition digit_char :: "nat \<Rightarrow> char" where
  "digit_char d = ''0123456789'' ! (d mod 10)"

function nat_digits :: "nat \<Rightarrow> string" where
  "nat_digits n = (if n < 10 then [digit_char n] else nat_digits (n div 10) @ [digit_char (n mod 10)])"
  by pat_completeness auto
termination
  by (relation "measure id") auto

declare nat_digits.simps [simp del]

definition str_int :: "int \<Rightarrow> string" where
  "str_int i = (if i < 0 then CHR ''-'' # nat_digits (nat (- i)) else nat_digits (nat i))"


section \<open>bin/digitaltwin2mqtt/mqttc.py\<close>

text \<open>
  The calls the subscriber makes: \<^verbatim>\<open>print(s)\<close> (one call writes \<^verbatim>\<open>s\<close> and the newline
  that ends the line), and the methods of the paho client object \<^verbatim>\<open>client\<close>.
\<close>

datatype 'c effect =
    is_Print: Print string
  | is_Subscribe: Subscribe 'c string
  | is_Connect: Connect 'c string pyval int
  | is_Loop_forever: Loop_forever 'c


text \<open>\<^verbatim>\<open>msg\<close> as the library hands it to \<^verbatim>\<open>on_message\<close>: the fields the script reads.\<close>

record 'p MQTTMessage =
  topic :: string
  payload :: 'p

text \<open>
  \<^verbatim>\<open>def on_connect(client, userdata, flags, rc)\<close>: one \<^verbatim>\<open>print\<close>, then
  \<^verbatim>\<open>client.subscribe('digitaltwin')\<close>. There is no branch.
\<close>

definition on_connect :: "'c \<Rightarrow> 'u \<Rightarrow> 'f \<Rightarrow> int \<Rightarrow> 'c effect list" where
  "on_connect client userdata flags rc =
     [Print (''Connected with result code '' @ str_int rc),
      Subscribe client ''digitaltwin'']"

text \<open>
  \<^verbatim>\<open>def on_message(client, userdata, msg)\<close>. The builtin \<^verbatim>\<open>str\<close> applied to the payload is
  the parameter \<open>str_of\<close>: what it returns depends on the type the library gives the
  payload (\<open>py2_str\<close> and \<open>py3_str\<close> below).
\<close>

definition on_message :: "('p \<Rightarrow> string) \<Rightarrow> 'c \<Rightarrow> 'u \<Rightarrow> 'p MQTTMessage \<Rightarrow> 'c effect list" where
  "on_message str_of client userdata msg =
     [Print (''at topic'' @ topic msg @ '' data: '' @ str_of (payload msg))]"

text \<open>
  The module's top level, from \<^verbatim>\<open>mqtt_srv = "localhost"\<close> on. \<open>argv\<close> is \<^verbatim>\<open>sys.argv\<close>
  (the script's name first); both reads of \<^verbatim>\<open>sys.argv\<close> are guarded by the length test
  in front of them, as in the source.
\<close>

definition mqttc :: "'c \<Rightarrow> string list \<Rightarrow> 'c effect list" where
  "mqttc client argv =
     (let mqtt_srv = ''localhost'';
          mqtt_port = PyInt 1883;
          mqtt_srv = (if length argv > 1 then argv ! 1 else mqtt_srv);
          mqtt_srv = (if length argv > 2 then argv ! 1 else mqtt_srv);
          mqtt_port = (if length argv > 2 then PyStr (argv ! 2) else mqtt_port)
      in [Connect client mqtt_srv mqtt_port 60, Loop_forever client])"

text \<open>
  \<^verbatim>\<open>client.loop_forever()\<close> does not return; as the comments of the source say, it
  "processes network traffic, dispatches callbacks": \<^verbatim>\<open>on_connect\<close> for a CONNACK,
  \<^verbatim>\<open>on_message\<close> for a PUBLISH. A run of the subscriber is observed on a finite prefix
  of the packets received.
\<close>

datatype ('f, 'p) packet = is_CONNACK: CONNACK 'f int | is_PUBLISH: PUBLISH "'p MQTTMessage"

fun dispatch :: "('p \<Rightarrow> string) \<Rightarrow> 'c \<Rightarrow> 'u \<Rightarrow> ('f, 'p) packet \<Rightarrow> 'c effect list" where
  "dispatch str_of client userdata (CONNACK flags rc) = on_connect client userdata flags rc"
| "dispatch str_of client userdata (PUBLISH msg) = on_message str_of client userdata msg"

definition subscriber :: "('p \<Rightarrow> string) \<Rightarrow> 'c \<Rightarrow> 'u \<Rightarrow> string list \<Rightarrow> ('f, 'p) packet list \<Rightarrow> 'c effect list" where
  "subscriber str_of client userdata argv pkts =
     mqttc client argv @ concat (map (dispatch str_of client userdata) pkts)"










section \<open>Python floats\<close>

text \<open>
  A Python \<^verbatim>\<open>float\<close> is an IEEE 754 binary64 number. A finite one is carried here by the
  rational number it denotes, and every operation computes the exact result and rounds it
  to the nearest binary64 number, ties to the even significand, as the hardware does.
  Infinities and NaN are left out: the scripts only compute with numbers between 0 and 5.
\<close>

type_synonym double = rat

text \<open>The number of binary digits of a positive integer.\<close>

function bitlen :: "int \<Rightarrow> nat" where
  "bitlen n = (if n \<le> 0 then 0 else Suc (bitlen (n div 2)))"
  by pat_completeness auto
termination
  by (relation "measure nat") auto

declare bitlen.simps [simp del]

definition pow2 :: "int \<Rightarrow> rat" where
  "pow2 e = (if 0 \<le> e then 2 ^ nat e else 1 / 2 ^ nat (- e))"

text \<open>The binary exponent of a positive rational: the \<open>e\<close> with \<open>2^e \<le> a < 2^(e+1)\<close>.\<close>

definition ilog2 :: "rat \<Rightarrow> int" where
  "ilog2 a = (let (n, d) = quotient_of a; e0 = int (bitlen n) - int (bitlen d)
              in if pow2 e0 \<le> a then e0 else e0 - 1)"

definition round_half_even :: "rat \<Rightarrow> int" where
  "round_half_even s = (let q = \<lfloor>s\<rfloor>; r = s - of_int q
                        in if 1 / 2 < r \<or> (r = 1 / 2 \<and> odd q) then q + 1 else q)"

text \<open>
  Rounding to binary64: 53 significant bits, so the unit in the last place of \<open>x\<close> is
  \<open>2^(ilog2 |x| - 52)\<close>, and never less than \<open>2^-1074\<close> (the subnormal numbers).
\<close>

definition rnd :: "rat \<Rightarrow> double" where
  "rnd x = (if x = 0 then 0
            else let e = max (ilog2 \<bar>x\<bar> - 52) (- 1074)
                 in of_int (round_half_even (x / pow2 e)) * pow2 e)"

text \<open>A decimal float literal such as \<^verbatim>\<open>0.01\<close>; an int where a float is needed; \<^verbatim>\<open>*\<close>
  and \<^verbatim>\<open>+\<close> on floats.\<close>

definition float_lit :: "rat \<Rightarrow> double" where
  "float_lit q = rnd q"

definition float_of_int :: "int \<Rightarrow> double" where
  "float_of_int i = rnd (of_int i)"

definition fmul :: "double \<Rightarrow> double \<Rightarrow> double" where
  "fmul a b = rnd (a * b)"

definition fadd :: "double \<Rightarrow> double \<Rightarrow> double" where
  "fadd a b = rnd (a + b)"


section \<open>The messages and the bag\<close>

text \<open>
  The message classes of \<^verbatim>\<open>std_msgs\<close> and \<^verbatim>\<open>geometry_msgs\<close>, by their fields. A numeric field
  holds the number the script put there. \<^verbatim>\<open>Vector3()\<close> without arguments has the three
  fields at zero.
\<close>

datatype String = String (data: string)

datatype Vector3 = Vector3 (vx: rat) (vy: rat) (vz: rat)

definition Vector3_default :: Vector3 where
  "Vector3_default = Vector3 0 0 0"

datatype Twist = Twist (linear: Vector3) (angular: Vector3)

text \<open>\<^verbatim>\<open>rospy.Time.from_sec(x)\<close>: the time stamp is kept by the number of seconds given.\<close>

datatype Time = Time_from_sec rat

fun to_sec :: "Time \<Rightarrow> rat" where
  "to_sec (Time_from_sec x) = x"

text \<open>
  The calls on \<^verbatim>\<open>rosbag\<close>: \<^verbatim>\<open>rosbag.Bag(path, mode)\<close>, \<^verbatim>\<open>bag.write(topic, msg, t=...)\<close> and
  \<^verbatim>\<open>bag.close()\<close>. Each of them may raise. Which ones do is not the script's choice: it is
  given by \<open>raises\<close>, a function of the calls made so far, the current one last. The list \<open>calls\<close>
  records every call that was made, whether it returned or raised.
\<close>

datatype 'm call =
    is_BagOpen: BagOpen string string
  | is_BagWrite: BagWrite string 'm Time
  | is_BagClose: BagClose

type_synonym 'm lib = "'m call list \<Rightarrow> bool"

definition invoke :: "'m lib \<Rightarrow> 'm call list \<Rightarrow> 'm call \<Rightarrow> 'm call list \<times> bool" where
  "invoke raises calls c = (calls @ [c], raises (calls @ [c]))"

definition no_raise :: "'m lib" where
  "no_raise calls = False"

datatype outcome = Completed | Raised

text \<open>What was written, in order: the topics, the messages, the time stamps.\<close>

fun written :: "'m call list \<Rightarrow> (string \<times> 'm \<times> Time) list" where
  "written [] = []"
| "written (BagWrite tp m t # cs) = (tp, m, t) # written cs"
| "written (c # cs) = written cs"


definition messages_written :: "'m call list \<Rightarrow> 'm list" where
  "messages_written calls = map (fst \<circ> snd) (written calls)"

definition times_written :: "'m call list \<Rightarrow> rat list" where
  "times_written calls = map (to_sec \<circ> snd \<circ> snd) (written calls)"


section \<open>examples/turtlesim_liability/robonomics/genbag_string.py\<close>

text \<open>
  The script: open the bag, build \<^verbatim>\<open>msg\<close>, then \<^verbatim>\<open>try:\<close> one write \<^verbatim>\<open>finally:\<close> close. When the
  constructor of the bag raises, the script ends there, before the \<^verbatim>\<open>try\<close>. An exception of
  the \<^verbatim>\<open>try\<close> block or of the \<^verbatim>\<open>finally\<close> block ends the script as \<open>Raised\<close>.
\<close>

definition genbag_string :: "String lib \<Rightarrow> String call list \<times> outcome" where
  "genbag_string raises =
     (case invoke raises [] (BagOpen ''./objective_string.bag'' ''w'') of
        (calls, True) \<Rightarrow> (calls, Raised)
      | (calls, False) \<Rightarrow>
          (let msg = String ''Dear turtle, please make a circle. Thanks!'' in
           case invoke raises calls
                  (BagWrite ''/turtle1/cmd'' msg (Time_from_sec (float_lit (1 / 10)))) of
             (calls, r_try) \<Rightarrow>
               (case invoke raises calls BagClose of
                  (calls, r_finally) \<Rightarrow>
                    (calls, if r_try \<or> r_finally then Raised else Completed))))"


section \<open>examples/turtlesim_liability/robonomics/genbag_twist.py\<close>

definition msg1 :: Twist where
  "msg1 = Twist Vector3_default Vector3_default"

definition msg2 :: Twist where
  "msg2 = Twist (Vector3 2 0 0) (Vector3 0 0 2)"

text \<open>The time of the write of round \<open>i\<close> of the loop: the float \<^verbatim>\<open>1 + 0.01*i\<close>.\<close>

definition loop_time :: "int \<Rightarrow> double" where
  "loop_time i = fadd (float_of_int 1) (fmul (float_lit (1 / 100)) (float_of_int i))"

text \<open>
  \<^verbatim>\<open>for i in range(0, 239): bag.write('/turtle1/cmd_vel', msg2, t=...)\<close>, over the values of
  \<open>i\<close> still to come. A write that raises ends the loop.
\<close>

fun write_loop :: "Twist lib \<Rightarrow> Twist call list \<Rightarrow> int list \<Rightarrow> Twist call list \<times> bool" where
  "write_loop raises calls [] = (calls, False)"
| "write_loop raises calls (i # rest) =
     (case invoke raises calls (BagWrite ''/turtle1/cmd_vel'' msg2 (Time_from_sec (loop_time i))) of
        (calls, True) \<Rightarrow> (calls, True)
      | (calls, False) \<Rightarrow> write_loop raises calls rest)"

text \<open>The \<^verbatim>\<open>try\<close> block: a write, the loop, a write; the first exception ends the block.\<close>

definition twist_try :: "Twist lib \<Rightarrow> Twist call list \<Rightarrow> Twist call list \<times> bool" where
  "twist_try raises calls =
     (case invoke raises calls (BagWrite ''/turtle1/cmd_vel'' msg1 (Time_from_sec 0)) of
        (calls, True) \<Rightarrow> (calls, True)
      | (calls, False) \<Rightarrow>
          (case write_loop raises calls [0..238] of
             (calls, True) \<Rightarrow> (calls, True)
           | (calls, False) \<Rightarrow>
               invoke raises calls (BagWrite ''/turtle1/cmd_vel'' msg1 (Time_from_sec 5))))"

definition genbag_twist :: "Twist lib \<Rightarrow> Twist call list \<times> outcome" where
  "genbag_twist raises =
     (case invoke raises [] (BagOpen ''./twist.bag'' ''w'') of
        (calls, True) \<Rightarrow> (calls, Raised)
      | (calls, False) \<Rightarrow>
          (case twist_try raises calls of
             (calls, r_try) \<Rightarrow>
               (case invoke raises calls BagClose of
                  (calls, r_finally) \<Rightarrow>
                    (calls, if r_try \<or> r_finally then Raised else Completed))))"


text \<open>The write of round \<open>i\<close> of the loop, and all the writes of the \<^verbatim>\<open>try\<close> block when
  none raises.\<close>

abbreviation W :: "int \<Rightarrow> Twist call" where
  "W i \<equiv> BagWrite ''/turtle1/cmd_vel'' msg2 (Time_from_sec (loop_time i))"

definition twist_writes :: "Twist call list" where
  "twist_writes =
     BagWrite ''/turtle1/cmd_vel'' msg1 (Time_from_sec 0) # map W [0..238]
     @ [BagWrite ''/turtle1/cmd_vel'' msg1 (Time_from_sec 5)]"


section \<open>The subscriber's command line\<close>

text \<open>
  C2. With no positional argument \<^verbatim>\<open>connect\<close> gets \<^verbatim>\<open>'localhost'\<close> and the int
  \<^verbatim>\<open>1883\<close>; with one, the host is \<^verbatim>\<open>argv[1]\<close> and the port is still \<^verbatim>\<open>1883\<close>; with two or
  more, the host is \<^verbatim>\<open>argv[1]\<close> and the port is \<^verbatim>\<open>argv[2]\<close>. (\<open>prog\<close> is \<^verbatim>\<open>argv[0]\<close>, the
  script's name; the keepalive is always 60.)
\<close>

theorem mqttc_connect_arguments:
  "mqttc c [prog] = [Connect c ''localhost'' (PyInt 1883) 60, Loop_forever c]
   \<and> mqttc c [prog, host] = [Connect c host (PyInt 1883) 60, Loop_forever c]
   \<and> mqttc c (prog # host # port # rest) = [Connect c host (PyStr port) 60, Loop_forever c]"
  by (simp add: mqttc_def)

text \<open>
  C8. When there is a second positional argument, the port handed to \<^verbatim>\<open>connect\<close> is the
  string \<^verbatim>\<open>argv[2]\<close> as it stands: a \<open>PyStr\<close>, never an int, whatever the string holds.
\<close>

theorem mqttc_port_is_raw_string:
  assumes "2 < length argv"
  shows "mqttc c argv = [Connect c (argv ! 1) (PyStr (argv ! 2)) 60, Loop_forever c]"
  using assms by (simp add: mqttc_def)

theorem mqttc_port_is_raw_string_witness:
  "2 < length [''mqttc.py'', ''broker'', ''70000 x'']
   \<and> mqttc () [''mqttc.py'', ''broker'', ''70000 x'']
       = [Connect () ''broker'' (PyStr ''70000 x'') 60, Loop_forever ()]"
  using mqttc_port_is_raw_string [of "[''mqttc.py'', ''broker'', ''70000 x'']" "()"] by simp


section \<open>The subscriber's callbacks\<close>

lemma filter_Subscribe_mqttc: "filter is_Subscribe (mqttc c argv) = []"
  by (simp add: mqttc_def)

lemma filter_Subscribe_on_connect:
  "filter is_Subscribe (on_connect c u f rc) = [Subscribe c ''digitaltwin'']"
  by (simp add: on_connect_def)

lemma filter_Subscribe_on_message: "filter is_Subscribe (on_message str_of c u msg) = []"
  by (simp add: on_message_def)

lemma filter_Subscribe_dispatch:
  "filter is_Subscribe (dispatch str_of c u p)
     = (if is_CONNACK p then [Subscribe c ''digitaltwin''] else [])"
  by (cases p) (simp_all add: filter_Subscribe_on_connect filter_Subscribe_on_message)

lemma filter_Subscribe_dispatch_all:
  "filter is_Subscribe (concat (map (dispatch str_of c u) pkts))
     = replicate (length (filter is_CONNACK pkts)) (Subscribe c ''digitaltwin'')"
proof (induction pkts)
  case Nil
  show ?case by simp
next
  case (Cons p pkts)
  then show ?case by (simp add: filter_Subscribe_dispatch)
qed

text \<open>
  C5. One call of \<^verbatim>\<open>on_connect\<close> makes exactly one \<^verbatim>\<open>subscribe\<close> call, to
  \<^verbatim>\<open>'digitaltwin'\<close>; and in a whole run of the subscriber the \<^verbatim>\<open>subscribe\<close> calls are
  exactly these, one per CONNACK received: the top level and \<^verbatim>\<open>on_message\<close> make none.
\<close>

theorem subscribe_once_per_connection:
  "filter is_Subscribe (on_connect c u f rc) = [Subscribe c ''digitaltwin'']
   \<and> filter is_Subscribe (subscriber str_of c u argv pkts)
       = replicate (length (filter is_CONNACK pkts)) (Subscribe c ''digitaltwin'')"
  by (simp add: subscriber_def filter_Subscribe_mqttc filter_Subscribe_on_connect
      filter_Subscribe_dispatch_all)

text \<open>
  C10. Whatever the result code \<open>rc\<close> is (zero or not), \<^verbatim>\<open>on_connect\<close> makes the same
  calls apart from the text printed: the only call that is not a \<^verbatim>\<open>print\<close> is the
  \<^verbatim>\<open>subscribe\<close> to \<^verbatim>\<open>'digitaltwin'\<close>, and \<open>rc\<close> occurs only in the one line printed.
\<close>

theorem on_connect_subscribes_for_every_rc:
  "filter (\<lambda>e. \<not> is_Print e) (on_connect c u f rc) = [Subscribe c ''digitaltwin'']
   \<and> filter is_Print (on_connect c u f rc)
       = [Print (''Connected with result code '' @ str_int rc)]"
  by (simp add: on_connect_def)














section \<open>Binary64 rounding\<close>

lemma bitlen_pos: "0 < n \<Longrightarrow> bitlen n = Suc (bitlen (n div 2))"
  by (subst bitlen.simps) simp

lemma bitlen_nonpos: "n \<le> 0 \<Longrightarrow> bitlen n = 0"
  by (subst bitlen.simps) simp

lemma bitlen_bounds: "0 < n \<Longrightarrow> 2 ^ (bitlen n - 1) \<le> n \<and> n < 2 ^ bitlen n"
proof (induction n rule: bitlen.induct)
  case (1 n)
  have lo: "2 * (n div 2) \<le> n" and hi: "n < 2 * (n div 2) + 2" by linarith+
  show ?case
  proof (cases "n div 2 \<le> 0")
    case True
    with "1.prems" hi have n1: "n = 1" by linarith
    have "bitlen (1::int) = Suc 0"
      using bitlen_pos [of 1] bitlen_nonpos [of 0] by simp
    with n1 show ?thesis by simp
  next
    case False
    then have h: "0 < n div 2" by simp
    from "1.IH" "1.prems" h
    have ih: "2 ^ (bitlen (n div 2) - 1) \<le> n div 2" "n div 2 < 2 ^ bitlen (n div 2)"
      by simp_all
    obtain b where b: "bitlen (n div 2) = Suc b"
      using bitlen_pos [OF h] by blast
    have bn: "bitlen n = Suc (Suc b)"
      using bitlen_pos [OF "1.prems"] b by simp
    from ih b have "(2::int) ^ b \<le> n div 2" "n div 2 < 2 * 2 ^ b" by simp_all
    with lo hi have "2 * 2 ^ b \<le> n" "n < 2 * (2 * 2 ^ b)" by linarith+
    then show ?thesis by (simp add: bn)
  qed
qed

lemma pow2_powi: "pow2 e = 2 powi e"
  by (simp add: pow2_def power_int_def divide_simps)

lemma pow2_pos: "0 < pow2 e"
  by (simp add: pow2_def)

lemma pow2_add: "pow2 (a + b) = pow2 a * pow2 b"
  by (simp add: pow2_powi power_int_add)

lemma pow2_nat: "pow2 (int k) = 2 ^ k"
  by (simp add: pow2_def)

lemma pow2_less: "a < b \<Longrightarrow> pow2 a < pow2 b"
  by (simp add: pow2_powi power_int_strict_increasing)

lemma pow2_le: "a \<le> b \<Longrightarrow> pow2 a \<le> pow2 b"
  by (simp add: pow2_powi power_int_increasing)

lemma pow2_less_cancel: "pow2 a < pow2 b \<Longrightarrow> a < b"
  using pow2_le [of b a] by (cases "a < b") simp_all

text \<open>bounds of a positive integer, as rationals, by its bit length\<close>
lemma bitlen_rat_bounds:
  assumes "0 < n"
  shows "pow2 (int (bitlen n) - 1) \<le> of_int n" and "of_int n < pow2 (int (bitlen n))"
proof -
  from bitlen_bounds [OF assms] have lo: "2 ^ (bitlen n - 1) \<le> n" and hi: "n < 2 ^ bitlen n"
    by simp_all
  from assms have pos: "0 < bitlen n" by (simp add: bitlen_pos)
  then have e: "int (bitlen n) - 1 = int (bitlen n - 1)" by simp
  have "(of_int (2 ^ (bitlen n - 1)) :: rat) \<le> of_int n"
    using lo by (simp only: of_int_le_iff)
  then show "pow2 (int (bitlen n) - 1) \<le> of_int n"
    by (simp add: e pow2_nat del: of_nat_diff)
  have "(of_int n :: rat) < of_int (2 ^ bitlen n)"
    using hi by (simp only: of_int_less_iff)
  then show "of_int n < pow2 (int (bitlen n))"
    by (simp add: pow2_nat)
qed

lemma ilog2_bounds:
  assumes "0 < a"
  shows "pow2 (ilog2 a) \<le> a" and "a < pow2 (ilog2 a + 1)"
proof -
  obtain n d where q: "quotient_of a = (n, d)" by (cases "quotient_of a")
  then have d: "0 < d" and a: "a = of_int n / of_int d"
    by (simp_all add: quotient_of_denom_pos quotient_of_div)
  from assms a d have n: "0 < n" by (simp add: zero_less_divide_iff)
  define e0 where "e0 = int (bitlen n) - int (bitlen d)"
  have dpos: "(0::rat) < of_int d" using d by simp
  note bn = bitlen_rat_bounds [OF n] and bd = bitlen_rat_bounds [OF d]
  have up: "a < pow2 (e0 + 1)"
  proof -
    have "of_int n < pow2 (e0 + 1) * pow2 (int (bitlen d) - 1)"
      using bn(2) by (simp add: pow2_add [symmetric] e0_def)
    also have "\<dots> \<le> pow2 (e0 + 1) * of_int d"
      using bd(1) pow2_pos [of "e0 + 1"] by (simp only: mult_le_cancel_left_pos)
    finally show ?thesis using dpos by (simp add: a pos_divide_less_eq)
  qed
  have low: "pow2 (e0 - 1) < a"
  proof -
    have "pow2 (e0 - 1) * of_int d < pow2 (e0 - 1) * pow2 (int (bitlen d))"
      using bd(2) pow2_pos [of "e0 - 1"] by (simp only: mult_less_cancel_left_pos)
    also have "\<dots> = pow2 (int (bitlen n) - 1)"
      by (simp add: pow2_add [symmetric] e0_def)
    also have "\<dots> \<le> of_int n" by (rule bn(1))
    finally show ?thesis using dpos by (simp add: a pos_less_divide_eq)
  qed
  have il: "ilog2 a = (if pow2 e0 \<le> a then e0 else e0 - 1)"
    by (simp add: ilog2_def q e0_def Let_def)
  show "pow2 (ilog2 a) \<le> a"
    using low by (simp add: il)
  show "a < pow2 (ilog2 a + 1)"
    using up by (simp add: il)
qed

lemma ilog2_less: "0 < a \<Longrightarrow> a < pow2 k \<Longrightarrow> ilog2 a < k"
  using ilog2_bounds(1) [of a] pow2_less_cancel [of "ilog2 a" k] by simp

lemma round_half_even_err: "\<bar>of_int (round_half_even s) - s\<bar> \<le> 1 / 2"
proof -
  have "of_int \<lfloor>s\<rfloor> \<le> s" "s < of_int \<lfloor>s\<rfloor> + 1" by linarith+
  then show ?thesis
    by (auto simp: round_half_even_def Let_def abs_le_iff)
qed

lemma round_half_even_of_int: "round_half_even (of_int k) = k"
  by (simp add: round_half_even_def)

text \<open>rounding error: half a unit in the last place\<close>
lemma rnd_err:
  assumes "x \<noteq> 0"
  shows "\<bar>rnd x - x\<bar> \<le> pow2 (max (ilog2 \<bar>x\<bar> - 52) (- 1074)) / 2"
proof -
  define e where "e = max (ilog2 \<bar>x\<bar> - 52) (- 1074)"
  have p: "0 < pow2 e" by (rule pow2_pos)
  have r: "rnd x = of_int (round_half_even (x / pow2 e)) * pow2 e"
    using assms by (simp add: rnd_def e_def Let_def)
  have "rnd x - x = (of_int (round_half_even (x / pow2 e)) - x / pow2 e) * pow2 e"
    using p by (simp add: r left_diff_distrib)
  then have "\<bar>rnd x - x\<bar> = \<bar>of_int (round_half_even (x / pow2 e)) - x / pow2 e\<bar> * pow2 e"
    using p by (simp add: abs_mult)
  also have "\<dots> \<le> (1 / 2) * pow2 e"
    using round_half_even_err [of "x / pow2 e"] p by (simp only: mult_le_cancel_right_pos)
  finally show ?thesis by (simp add: e_def)
qed

lemma rnd_err_below:
  assumes "\<bar>x\<bar> < pow2 (k + 53)" and "- 1074 \<le> k"
  shows "\<bar>rnd x - x\<bar> \<le> pow2 k / 2"
proof (cases "x = 0")
  case True
  then show ?thesis using pow2_pos [of k] by (simp add: rnd_def)
next
  case False
  then have "0 < \<bar>x\<bar>" by simp
  from ilog2_less [OF this assms(1)] have "ilog2 \<bar>x\<bar> - 52 \<le> k" by simp
  with assms(2) have "max (ilog2 \<bar>x\<bar> - 52) (- 1074) \<le> k" by simp
  from pow2_le [OF this] rnd_err [OF False] show ?thesis by simp
qed

lemma rnd_err_lt4: "\<bar>x\<bar> < 4 \<Longrightarrow> \<bar>rnd x - x\<bar> \<le> 1 / 2 ^ 52"
  using rnd_err_below [of x "- 51"] by (simp add: pow2_def)

text \<open>integers below 2^53 are binary64 numbers\<close>
lemma rnd_of_int:
  assumes "\<bar>i\<bar> < 2 ^ 53"
  shows "rnd (of_int i) = of_int i"
proof (cases "i = 0")
  case True
  then show ?thesis by (simp add: rnd_def)
next
  case False
  define x :: rat where "x = of_int i"
  define e where "e = max (ilog2 \<bar>x\<bar> - 52) (- 1074)"
  have x0: "x \<noteq> 0" "0 < \<bar>x\<bar>" using False by (simp_all add: x_def)
  have "\<bar>x\<bar> = of_int \<bar>i\<bar>" by (simp add: x_def)
  also have "\<dots> < of_int (2 ^ 53)" using assms by (simp only: of_int_less_iff)
  finally have "\<bar>x\<bar> < pow2 53" by (simp add: pow2_def)
  from ilog2_less [OF x0(2) this] have e0: "e \<le> 0" by (simp add: e_def)
  define k where "k = nat (- e)"
  have pe: "pow2 e = 1 / 2 ^ k" using e0 by (auto simp: pow2_def k_def)
  have "x / pow2 e = of_int (i * 2 ^ k)" by (simp add: pe x_def)
  then have "round_half_even (x / pow2 e) = i * 2 ^ k"
    by (simp only: round_half_even_of_int)
  then have "rnd x = of_int (i * 2 ^ k) * pow2 e"
    using x0 by (simp add: rnd_def e_def Let_def)
  also have "\<dots> = x" by (simp add: pe x_def)
  finally show ?thesis by (simp add: x_def)
qed

lemma float_of_int_exact: "\<bar>i\<bar> < 2 ^ 53 \<Longrightarrow> float_of_int i = of_int i"
  by (simp add: float_of_int_def rnd_of_int)

lemma float_lit_001: "float_lit (1 / 100) = 5764607523034235 / 2 ^ 59"
proof -
  have "float_lit (1 / 100) = 5764607523034235 / 576460752303423488" by code_simp
  then show ?thesis by simp
qed

lemma abs_diff_leD: "\<bar>a - b\<bar> \<le> e \<Longrightarrow> a \<le> b + e \<and> b \<le> a + e" for a b e :: rat
  by linarith

lemma abs_diff_leI: "a \<le> b + e \<Longrightarrow> b \<le> a + e \<Longrightarrow> \<bar>a - b\<bar> \<le> e" for a b e :: rat
  by linarith

text \<open>the loop's time stamps are within 2^-50 of 1 + i/100\<close>
lemma loop_time_near:
  assumes "0 \<le> i" and "i \<le> 238"
  shows "\<bar>loop_time i - (1 + of_int i / 100)\<bar> \<le> 1 / 2 ^ 50"
proof -
  define c :: rat where "c = 5764607523034235 / 2 ^ 59"
  define dl :: rat where "dl = c - 1 / 100"
  define r :: rat where "r = of_int i"
  have r: "0 \<le> r" "r \<le> 238" using assms by (simp_all add: r_def)
  have fi: "float_of_int i = r" using assms by (simp add: float_of_int_exact r_def)
  have f1: "float_of_int 1 = 1" using float_of_int_exact [of 1] by simp
  define p where "p = c * r"
  define q where "q = r * dl"
  define y where "y = rnd p"
  have lt: "loop_time i = rnd (1 + y)"
    by (simp add: loop_time_def fadd_def fmul_def fi f1 float_lit_001 y_def c_def p_def)
  have dl: "0 \<le> dl" "238 * dl \<le> 1 / 2 ^ 54" by (simp_all add: dl_def c_def)
  have "r * dl \<le> 238 * dl" using r dl(1) by (intro mult_right_mono) simp_all
  with dl(2) have qhi: "q \<le> 1 / 2 ^ 54" by (simp add: q_def)
  have qlo: "0 \<le> q" using r dl(1) by (simp add: q_def)
  have pq: "p = r / 100 + q" by (simp add: p_def q_def dl_def algebra_simps)
  have small: "(1::rat) / 2 ^ 54 \<le> 1 / 100" "(1::rat) / 2 ^ 52 \<le> 1 / 100" by simp_all
  have plo: "0 \<le> p" and phi: "p \<le> 5 / 2" using r qlo qhi small(1) by (simp_all add: pq)
  then have "\<bar>p\<bar> < 4" by simp
  then have "\<bar>y - p\<bar> \<le> 1 / 2 ^ 52" unfolding y_def by (rule rnd_err_lt4)
  from abs_diff_leD [OF this] have ey: "y \<le> p + 1 / 2 ^ 52" "p \<le> y + 1 / 2 ^ 52" by simp_all
  with plo phi small(2) have "- 1 \<le> y" "y < 3" by linarith+
  then have "\<bar>1 + y\<bar> < 4" by linarith
  then have "\<bar>rnd (1 + y) - (1 + y)\<bar> \<le> 1 / 2 ^ 52" by (rule rnd_err_lt4)
  from abs_diff_leD [OF this]
  have et: "rnd (1 + y) \<le> 1 + y + 1 / 2 ^ 52" "1 + y \<le> rnd (1 + y) + 1 / 2 ^ 52" by simp_all
  have e: "(1::rat) / 2 ^ 52 + 1 / 2 ^ 52 + 1 / 2 ^ 54 \<le> 1 / 2 ^ 50"
    and e': "(1::rat) / 2 ^ 52 + 1 / 2 ^ 52 \<le> 1 / 2 ^ 50" by simp_all
  have "loop_time i \<le> (1 + r / 100) + 1 / 2 ^ 50"
    using et(1) ey(1) qhi e unfolding lt pq by linarith
  moreover have "1 + r / 100 \<le> loop_time i + 1 / 2 ^ 50"
    using et(2) ey(2) qlo e' unfolding lt pq by linarith
  ultimately show ?thesis unfolding r_def by (rule abs_diff_leI)
qed

lemma loop_time_strict_mono:
  assumes "0 \<le> i" "i < j" "j \<le> 238"
  shows "loop_time i < loop_time j"
proof -
  have i: "\<bar>loop_time i - (1 + of_int i / 100)\<bar> \<le> 1 / 2 ^ 50"
    using assms by (intro loop_time_near) simp_all
  have j: "\<bar>loop_time j - (1 + of_int j / 100)\<bar> \<le> 1 / 2 ^ 50"
    using assms by (intro loop_time_near) simp_all
  from assms(2) have "i + 1 \<le> j" by simp
  then have "(of_int (i + 1) :: rat) \<le> of_int j" by (simp only: of_int_le_iff)
  then have "(of_int i :: rat) / 100 + 1 / 100 \<le> of_int j / 100" by simp
  moreover have "(1::rat) / 2 ^ 50 + 1 / 2 ^ 50 < 1 / 100" by simp
  ultimately show ?thesis
    using abs_diff_leD [OF i] abs_diff_leD [OF j] by linarith
qed

lemma loop_time_0: "loop_time 0 = 1"
  by code_simp

lemma loop_time_238: "loop_time 238 = float_lit (338 / 100)"
  by code_simp


section \<open>The bag writers\<close>

lemma written_append: "written (xs @ ys) = written xs @ written ys"
  by (induction xs rule: written.induct) simp_all

lemma write_loop_completed:
  "\<not> snd (write_loop raises calls js) \<Longrightarrow>
   fst (write_loop raises calls js) = calls @ map W js"
  by (induction js arbitrary: calls) (auto simp: invoke_def split: if_splits bool.splits)

lemma write_loop_take:
  "\<exists>n\<le>length js. fst (write_loop raises calls js) = calls @ take n (map W js)"
proof (induction js arbitrary: calls)
  case Nil
  show ?case by simp
next
  case (Cons j js)
  show ?case
  proof (cases "raises (calls @ [W j])")
    case True
    then have "fst (write_loop raises calls (j # js)) = calls @ take 1 (map W (j # js))"
      by (simp add: invoke_def)
    then show ?thesis by (intro exI [of _ 1]) simp
  next
    case False
    from Cons.IH [of "calls @ [W j]"] obtain n where
      n: "n \<le> length js" "fst (write_loop raises (calls @ [W j]) js) = (calls @ [W j]) @ take n (map W js)"
      by blast
    with False have "fst (write_loop raises calls (j # js)) = calls @ take (Suc n) (map W (j # js))"
      by (simp add: invoke_def)
    with n(1) show ?thesis by (intro exI [of _ "Suc n"]) simp
  qed
qed

lemma write_loop_no_raise: "write_loop no_raise calls js = (calls @ map W js, False)"
  by (induction js arbitrary: calls) (simp_all add: invoke_def no_raise_def)

lemma twist_try_no_raise: "twist_try no_raise calls = (calls @ twist_writes, False)"
  by (simp add: twist_try_def twist_writes_def write_loop_no_raise invoke_def no_raise_def)

lemma twist_try_take: "\<exists>n. fst (twist_try raises calls) = calls @ take n twist_writes"
proof -
  let ?w1 = "BagWrite ''/turtle1/cmd_vel'' msg1 (Time_from_sec 0)"
  let ?w3 = "BagWrite ''/turtle1/cmd_vel'' msg1 (Time_from_sec 5)"
  show ?thesis
  proof (cases "raises (calls @ [?w1])")
    case True
    then have "fst (twist_try raises calls) = calls @ take 1 twist_writes"
      by (simp add: twist_try_def invoke_def twist_writes_def)
    then show ?thesis ..
  next
    case r1: False
    show ?thesis
    proof (cases "snd (write_loop raises (calls @ [?w1]) [0..238])")
      case True
      from write_loop_take [of "[0..238]" raises "calls @ [?w1]"] obtain n where
        n: "n \<le> length [0..238::int]"
           "fst (write_loop raises (calls @ [?w1]) [0..238]) = (calls @ [?w1]) @ take n (map W [0..238])"
        by blast
      have "fst (twist_try raises calls) = fst (write_loop raises (calls @ [?w1]) [0..238])"
        using r1 True by (auto simp: twist_try_def invoke_def split: prod.splits)
      also have "\<dots> = calls @ take (Suc n) twist_writes"
        using n by (simp add: twist_writes_def)
      finally show ?thesis ..
    next
      case False
      from write_loop_completed [OF this]
      have "fst (twist_try raises calls) = calls @ take (length twist_writes) twist_writes"
        using r1 False by (auto simp: twist_try_def invoke_def twist_writes_def split: prod.splits)
      then show ?thesis ..
    qed
  qed
qed

lemma twist_try_only_writes:
  "filter is_BagClose (fst (twist_try raises calls)) = filter is_BagClose calls"
proof -
  obtain n where "fst (twist_try raises calls) = calls @ take n twist_writes"
    using twist_try_take by blast
  moreover have "filter is_BagClose (take n twist_writes) = []"
    by (rule filter_False) (auto simp: twist_writes_def dest!: in_set_takeD)
  ultimately show ?thesis by simp
qed

lemma genbag_twist_calls:
  "fst (genbag_twist raises) =
     (if raises [BagOpen ''./twist.bag'' ''w''] then [BagOpen ''./twist.bag'' ''w'']
      else fst (twist_try raises [BagOpen ''./twist.bag'' ''w'']) @ [BagClose])"
  by (simp add: genbag_twist_def invoke_def split: prod.splits)

lemma genbag_string_calls:
  "fst (genbag_string raises) =
     (if raises [BagOpen ''./objective_string.bag'' ''w''] then [BagOpen ''./objective_string.bag'' ''w'']
      else [BagOpen ''./objective_string.bag'' ''w'',
            BagWrite ''/turtle1/cmd'' (String ''Dear turtle, please make a circle. Thanks!'')
              (Time_from_sec (float_lit (1 / 10))),
            BagClose])"
  by (simp add: genbag_string_def invoke_def Let_def split: prod.splits)

lemma length_twist_writes: "length twist_writes = 241"
  by (simp add: twist_writes_def)

lemma written_twist_writes:
  "written twist_writes =
     (''/turtle1/cmd_vel'', msg1, Time_from_sec 0)
     # map (\<lambda>i. (''/turtle1/cmd_vel'', msg2, Time_from_sec (loop_time i))) [0..238]
     @ [(''/turtle1/cmd_vel'', msg1, Time_from_sec 5)]"
proof -
  have "written (map W js) = map (\<lambda>i. (''/turtle1/cmd_vel'', msg2, Time_from_sec (loop_time i))) js" for js
    by (induction js) simp_all
  then show ?thesis by (simp add: twist_writes_def written_append)
qed

lemma written_take_twist_writes: "written (take n twist_writes) = take n (written twist_writes)"
proof -
  have "written (take n cs) = take n (written cs)" if "list_all is_BagWrite cs" for cs :: "Twist call list"
    using that
  proof (induction cs arbitrary: n)
    case Nil
    show ?case by simp
  next
    case (Cons c cs)
    then show ?case by (cases c; cases n) simp_all
  qed
  moreover have "list_all is_BagWrite twist_writes"
    by (simp add: twist_writes_def list_all_iff)
  ultimately show ?thesis by blast
qed

lemma sorted_loop_times: "sorted_wrt (<) (map loop_time [0..238])"
proof -
  have "sorted_wrt (\<lambda>i j. loop_time i < loop_time j) [0..238]"
  proof (rule sorted_wrt_mono_rel [where P = "(<)"])
    show "sorted_wrt (<) [0..238::int]" by (rule sorted_wrt_upto)
  next
    fix i j :: int
    assume "i \<in> set [0..238]" "j \<in> set [0..238]" "i < j"
    then show "loop_time i < loop_time j" by (intro loop_time_strict_mono) simp_all
  qed
  then show ?thesis by (simp add: sorted_wrt_map)
qed

lemma loop_time_range:
  assumes i: "0 \<le> i" "i \<le> 238"
  shows "0 < loop_time i \<and> loop_time i < 5"
proof -
  from i have "(0::rat) \<le> of_int i" "(of_int i :: rat) \<le> of_int 238" by (simp_all only: of_int_le_iff of_int_0_le_iff)
  then have "(0::rat) \<le> of_int i / 100" "(of_int i :: rat) / 100 \<le> 3" by simp_all
  moreover have "(1::rat) / 2 ^ 50 < 1" by simp
  moreover note abs_diff_leD [OF loop_time_near [OF i], THEN conjunct1]
    abs_diff_leD [OF loop_time_near [OF i], THEN conjunct2]
  ultimately have "0 < loop_time i" "loop_time i < 5" by linarith+
  then show ?thesis by simp
qed

lemma sorted_twist_times: "sorted_wrt (<) (0 # map loop_time [0..238] @ [5])"
  using sorted_loop_times loop_time_range by (auto simp: sorted_wrt_append)

lemma float_lit_01: "float_lit (1 / 10) = 3602879701896397 / 2 ^ 55"
proof -
  have "float_lit (1 / 10) = 3602879701896397 / 36028797018963968" by code_simp
  then show ?thesis by simp
qed

lemma genbag_twist_no_raise:
  "genbag_twist no_raise = (BagOpen ''./twist.bag'' ''w'' # twist_writes @ [BagClose], Completed)"
  by (simp add: genbag_twist_def twist_try_no_raise invoke_def) (simp add: no_raise_def)

text \<open>
  C4. When no call raises, the string generator opens \<^verbatim>\<open>./objective_string.bag\<close> for writing,
  writes exactly one message and closes: the message is the \<^verbatim>\<open>String\<close> with the payload
  \<^verbatim>\<open>Dear turtle, please make a circle. Thanks!\<close>, on topic \<^verbatim>\<open>/turtle1/cmd\<close>, with the time stamp
  \<^verbatim>\<open>from_sec(0.1)\<close>. The float \<^verbatim>\<open>0.1\<close> is the binary64 number \<open>3602879701896397 / 2^55\<close>,
  within \<open>2^-57\<close> of one tenth.
\<close>

theorem genbag_string_writes:
  "genbag_string no_raise =
     ([BagOpen ''./objective_string.bag'' ''w'',
       BagWrite ''/turtle1/cmd'' (String ''Dear turtle, please make a circle. Thanks!'')
         (Time_from_sec (float_lit (1 / 10))),
       BagClose], Completed)
   \<and> written (fst (genbag_string no_raise)) =
       [(''/turtle1/cmd'', String ''Dear turtle, please make a circle. Thanks!'',
         Time_from_sec (float_lit (1 / 10)))]
   \<and> float_lit (1 / 10) = 3602879701896397 / 2 ^ 55
   \<and> \<bar>float_lit (1 / 10) - 1 / 10\<bar> \<le> 1 / 2 ^ 57"
proof -
  have "genbag_string no_raise =
     ([BagOpen ''./objective_string.bag'' ''w'',
       BagWrite ''/turtle1/cmd'' (String ''Dear turtle, please make a circle. Thanks!'')
         (Time_from_sec (float_lit (1 / 10))),
       BagClose], Completed)"
    by (simp add: genbag_string_def invoke_def Let_def) (simp add: no_raise_def)
  moreover have "\<bar>float_lit (1 / 10) - 1 / 10\<bar> \<le> 1 / 2 ^ 57"
    by (simp add: float_lit_01)
  ultimately show ?thesis by (simp add: float_lit_01)
qed

text \<open>
  C1. When no call raises, the twist generator writes exactly 241 messages, all on topic
  \<^verbatim>\<open>/turtle1/cmd_vel\<close>, in this order: the zero \<^verbatim>\<open>Twist\<close> at \<^verbatim>\<open>from_sec(0)\<close>; then, for
  \<open>i = 0, \<dots>, 238\<close> (239 writes), the \<^verbatim>\<open>Twist\<close> with linear \<open>(2,0,0)\<close> and angular \<open>(0,0,2)\<close>
  at \<^verbatim>\<open>from_sec(1 + 0.01*i)\<close>; then the zero \<^verbatim>\<open>Twist\<close> at \<^verbatim>\<open>from_sec(5)\<close>. The float
  \<^verbatim>\<open>1 + 0.01*i\<close> is \<open>loop_time i\<close>: it is exactly 1 for \<open>i = 0\<close>, within \<open>2^-50\<close> of the decimal
  \<open>1 + i/100\<close> for every \<open>i\<close> of the loop, and two consecutive ones are \<open>0.01\<close> apart up to
  \<open>2^-49\<close>.
\<close>

theorem genbag_twist_writes:
  "genbag_twist no_raise =
     ([BagOpen ''./twist.bag'' ''w'',
       BagWrite ''/turtle1/cmd_vel'' (Twist (Vector3 0 0 0) (Vector3 0 0 0)) (Time_from_sec 0)]
      @ map (\<lambda>i. BagWrite ''/turtle1/cmd_vel'' (Twist (Vector3 2 0 0) (Vector3 0 0 2))
                  (Time_from_sec (loop_time i))) [0..238]
      @ [BagWrite ''/turtle1/cmd_vel'' (Twist (Vector3 0 0 0) (Vector3 0 0 0)) (Time_from_sec 5),
         BagClose], Completed)
   \<and> length (written (fst (genbag_twist no_raise))) = 241
   \<and> length [0..238::int] = 239
   \<and> loop_time 0 = 1
   \<and> (\<forall>i. 0 \<le> i \<and> i \<le> 238 \<longrightarrow> \<bar>loop_time i - (1 + of_int i / 100)\<bar> \<le> 1 / 2 ^ 50)
   \<and> (\<forall>i. 0 \<le> i \<and> i < 238 \<longrightarrow> \<bar>loop_time (i + 1) - loop_time i - 1 / 100\<bar> \<le> 1 / 2 ^ 49)"
proof -
  have calls: "genbag_twist no_raise =
     ([BagOpen ''./twist.bag'' ''w'',
       BagWrite ''/turtle1/cmd_vel'' (Twist (Vector3 0 0 0) (Vector3 0 0 0)) (Time_from_sec 0)]
      @ map (\<lambda>i. BagWrite ''/turtle1/cmd_vel'' (Twist (Vector3 2 0 0) (Vector3 0 0 2))
                  (Time_from_sec (loop_time i))) [0..238]
      @ [BagWrite ''/turtle1/cmd_vel'' (Twist (Vector3 0 0 0) (Vector3 0 0 0)) (Time_from_sec 5),
         BagClose], Completed)"
    by (simp add: genbag_twist_no_raise twist_writes_def msg1_def msg2_def Vector3_default_def)
  have len: "length (written (fst (genbag_twist no_raise))) = 241"
    by (simp add: genbag_twist_no_raise written_append written_twist_writes)
  have near: "\<bar>loop_time i - (1 + of_int i / 100)\<bar> \<le> 1 / 2 ^ 50" if "0 \<le> i \<and> i \<le> 238" for i
    using that by (intro loop_time_near) simp_all
  have step: "\<bar>loop_time (i + 1) - loop_time i - 1 / 100\<bar> \<le> 1 / 2 ^ 49" if "0 \<le> i \<and> i < 238" for i
  proof -
    note a = abs_diff_leD [OF near [of i]] and b = abs_diff_leD [OF near [of "i + 1"]]
    have a: "loop_time i \<le> 1 + of_int i / 100 + 1 / 2 ^ 50"
            "1 + of_int i / 100 \<le> loop_time i + 1 / 2 ^ 50"
      using a that by simp_all
    have b: "loop_time (i + 1) \<le> 1 + of_int i / 100 + 1 / 100 + 1 / 2 ^ 50"
            "1 + of_int i / 100 + 1 / 100 \<le> loop_time (i + 1) + 1 / 2 ^ 50"
      using b that by (simp_all add: add_divide_distrib)
    have e: "(1::rat) / 2 ^ 50 + 1 / 2 ^ 50 = 1 / 2 ^ 49" by simp
    have "loop_time (i + 1) - loop_time i \<le> 1 / 100 + 1 / 2 ^ 49"
         "1 / 100 \<le> loop_time (i + 1) - loop_time i + 1 / 2 ^ 49"
      using a b e by linarith+
    then show ?thesis by (intro abs_diff_leI) simp_all
  qed
  from calls len near step loop_time_0 show ?thesis by simp
qed

theorem genbag_twist_writes_witness:
  "(0::int) \<le> 100 \<and> (100::int) \<le> 238 \<and> \<bar>loop_time 100 - (1 + of_int 100 / 100)\<bar> \<le> 1 / 2 ^ 50
   \<and> (0::int) \<le> 100 \<and> (100::int) < 238 \<and> \<bar>loop_time (100 + 1) - loop_time 100 - 1 / 100\<bar> \<le> 1 / 2 ^ 49"
proof -
  from genbag_twist_writes
  have a: "\<forall>i. 0 \<le> i \<and> i \<le> 238 \<longrightarrow> \<bar>loop_time i - (1 + of_int i / 100)\<bar> \<le> 1 / 2 ^ 50"
    and b: "\<forall>i. 0 \<le> i \<and> i < 238 \<longrightarrow> \<bar>loop_time (i + 1) - loop_time i - 1 / 100\<bar> \<le> 1 / 2 ^ 49"
    by blast+
  from a [THEN spec, of 100] b [THEN spec, of 100] show ?thesis by simp
qed

text \<open>
  C3. In both bag writers, once the bag has been opened, \<^verbatim>\<open>bag.close()\<close> is called exactly
  once and it is the last call of the script, whichever calls raise: no write, some write
  (which ends the \<^verbatim>\<open>try\<close> block at that point), or \<^verbatim>\<open>close\<close> itself.
\<close>

theorem bag_closed_exactly_once:
  assumes "\<not> rt [BagOpen ''./twist.bag'' ''w'']"
    and "\<not> rs [BagOpen ''./objective_string.bag'' ''w'']"
  shows "length (filter is_BagClose (fst (genbag_twist rt))) = 1
         \<and> last (fst (genbag_twist rt)) = BagClose
         \<and> length (filter is_BagClose (fst (genbag_string rs))) = 1
         \<and> last (fst (genbag_string rs)) = BagClose"
  using assms by (simp add: genbag_twist_calls genbag_string_calls twist_try_only_writes)

theorem bag_closed_exactly_once_witness:
  "\<not> (\<lambda>calls. length calls = 3) [BagOpen ''./twist.bag'' ''w'']
   \<and> \<not> (\<lambda>calls. length calls = 2) [BagOpen ''./objective_string.bag'' ''w'']
   \<and> length (filter is_BagClose (fst (genbag_twist (\<lambda>calls. length calls = 3)))) = 1
   \<and> last (fst (genbag_twist (\<lambda>calls. length calls = 3))) = BagClose
   \<and> snd (genbag_twist (\<lambda>calls. length calls = 3)) = Raised
   \<and> length (filter is_BagClose (fst (genbag_string (\<lambda>calls. length calls = 2)))) = 1
   \<and> last (fst (genbag_string (\<lambda>calls. length calls = 2))) = BagClose
   \<and> snd (genbag_string (\<lambda>calls. length calls = 2)) = Raised"
proof -
  have "[0..238::int] = 0 # [1..238]" by (simp add: upto_rec1)
  then have "snd (genbag_twist (\<lambda>calls. length calls = 3)) = Raised"
    by (simp add: genbag_twist_def twist_try_def invoke_def)
  moreover have "snd (genbag_string (\<lambda>calls. length calls = 2)) = Raised"
    by (simp add: genbag_string_def invoke_def Let_def)
  ultimately show ?thesis
    using bag_closed_exactly_once [of "\<lambda>calls. length calls = 3" "\<lambda>calls. length calls = 2"]
    by simp
qed

lemma messages_twist_writes: "messages_written twist_writes = msg1 # replicate 239 msg2 @ [msg1]"
proof -
  have "map (\<lambda>i::int. msg2) js = replicate (length js) msg2" for js
    by (induction js) simp_all
  then show ?thesis
    by (simp add: messages_written_def written_twist_writes comp_def)
qed

lemma genbag_twist_written_take:
  "\<exists>n. written (fst (genbag_twist raises)) = take n (written twist_writes)"
proof (cases "raises [BagOpen ''./twist.bag'' ''w'']")
  case True
  then have "written (fst (genbag_twist raises)) = take 0 (written twist_writes)"
    by (simp add: genbag_twist_calls)
  then show ?thesis ..
next
  case False
  obtain n where "fst (twist_try raises [BagOpen ''./twist.bag'' ''w''])
      = [BagOpen ''./twist.bag'' ''w''] @ take n twist_writes"
    using twist_try_take by blast
  with False have "written (fst (genbag_twist raises)) = take n (written twist_writes)"
    by (simp add: genbag_twist_calls written_append written_take_twist_writes)
  then show ?thesis ..
qed

text \<open>
  C7. The messages handed to \<^verbatim>\<open>bag.write\<close> are the literals the script built, unchanged.
  Whichever calls raise, the messages written by the twist generator are an initial part of:
  the zero \<^verbatim>\<open>Twist\<close>, 239 times the \<^verbatim>\<open>Twist\<close> with linear \<open>(2,0,0)\<close> and angular \<open>(0,0,2)\<close> (the
  same value, field for field, at every write of the loop), the zero \<^verbatim>\<open>Twist\<close>; and all of
  it when nothing raises. The string generator writes its one literal \<^verbatim>\<open>String\<close> or nothing.
\<close>

theorem messages_never_change:
  "prefix (messages_written (fst (genbag_twist rt)))
      (Twist (Vector3 0 0 0) (Vector3 0 0 0)
       # replicate 239 (Twist (Vector3 2 0 0) (Vector3 0 0 2))
       @ [Twist (Vector3 0 0 0) (Vector3 0 0 0)])
   \<and> messages_written (fst (genbag_twist no_raise)) =
       Twist (Vector3 0 0 0) (Vector3 0 0 0)
       # replicate 239 (Twist (Vector3 2 0 0) (Vector3 0 0 2))
       @ [Twist (Vector3 0 0 0) (Vector3 0 0 0)]
   \<and> prefix (messages_written (fst (genbag_string rs)))
       [String ''Dear turtle, please make a circle. Thanks!'']
   \<and> messages_written (fst (genbag_string no_raise)) =
       [String ''Dear turtle, please make a circle. Thanks!'']"
proof -
  have lit: "msg1 # replicate 239 msg2 @ [msg1] =
       Twist (Vector3 0 0 0) (Vector3 0 0 0)
       # replicate 239 (Twist (Vector3 2 0 0) (Vector3 0 0 2))
       @ [Twist (Vector3 0 0 0) (Vector3 0 0 0)]"
    by (simp add: msg1_def msg2_def Vector3_default_def)
  obtain n where "written (fst (genbag_twist rt)) = take n (written twist_writes)"
    using genbag_twist_written_take by blast
  then have "messages_written (fst (genbag_twist rt)) = take n (messages_written twist_writes)"
    by (simp add: messages_written_def take_map)
  then have t: "prefix (messages_written (fst (genbag_twist rt))) (msg1 # replicate 239 msg2 @ [msg1])"
    by (simp add: messages_twist_writes take_is_prefix)
  have tn: "messages_written (fst (genbag_twist no_raise)) = msg1 # replicate 239 msg2 @ [msg1]"
    using messages_twist_writes
    by (simp add: genbag_twist_no_raise messages_written_def written_append)
  have s: "prefix (messages_written (fst (genbag_string rs)))
       [String ''Dear turtle, please make a circle. Thanks!'']"
    by (simp add: genbag_string_calls messages_written_def)
  have sn: "messages_written (fst (genbag_string no_raise)) =
       [String ''Dear turtle, please make a circle. Thanks!'']"
    by (simp add: genbag_string_calls messages_written_def no_raise_def)
  from t tn s sn show ?thesis unfolding lit by simp
qed

lemma times_twist_writes: "times_written twist_writes = 0 # map loop_time [0..238] @ [5]"
  by (simp add: times_written_def written_twist_writes comp_def)

text \<open>
  C9. The time stamps the twist generator gives to its writes are strictly increasing:
  \<open>0\<close>, then the floats \<^verbatim>\<open>1 + 0.01*i\<close> for \<open>i = 0, \<dots>, 238\<close>, each greater than the one before,
  the last of them being the float \<^verbatim>\<open>3.38\<close>, then \<open>5\<close>. This holds for the writes made
  before an exception too.
\<close>

theorem twist_times_strictly_increasing:
  "times_written (fst (genbag_twist no_raise)) = 0 # map loop_time [0..238] @ [5]
   \<and> sorted_wrt (<) (0 # map loop_time [0..238] @ [5])
   \<and> last (map loop_time [0..238]) = float_lit (338 / 100)
   \<and> sorted_wrt (<) (times_written (fst (genbag_twist raises)))"
proof -
  have full: "times_written (fst (genbag_twist no_raise)) = 0 # map loop_time [0..238] @ [5]"
    using times_twist_writes
    by (simp add: genbag_twist_no_raise times_written_def written_append)
  have "[0..238::int] = [0..237] @ [238]" by (simp add: upto_rec2)
  then have la: "last (map loop_time [0..238]) = float_lit (338 / 100)"
    by (simp add: loop_time_238)
  obtain n where "written (fst (genbag_twist raises)) = take n (written twist_writes)"
    using genbag_twist_written_take by blast
  then have "times_written (fst (genbag_twist raises)) = take n (times_written twist_writes)"
    by (simp add: times_written_def take_map)
  then have "times_written (fst (genbag_twist raises)) = take n (0 # map loop_time [0..238] @ [5])"
    by (simp only: times_twist_writes)
  moreover have "sorted_wrt (<) (take n (0 # map loop_time [0..238] @ [5]))"
    using sorted_twist_times by (rule sorted_wrt_take)
  ultimately have "sorted_wrt (<) (times_written (fst (genbag_twist raises)))" by simp
  with full la sorted_twist_times show ?thesis by simp
qed

end
